theory Spec2Isabelle
  imports Main "HOL-Library.Word"
begin

section \<open>The FUSE file of restic (src/restic/fuse/file.go)\<close>

text \<open>
  The model follows file.go on a 64-bit platform: Go's \<open>uint\<close> and \<open>uint64\<close> are
  \<open>64 word\<close> (addition wraps), \<open>int64\<close> is a \<open>64 word\<close> read in two's complement
  (\<open>sint\<close>, \<open><s\<close>), and the conversions \<open>uint64(offset)\<close> and \<open>int64(size)\<close> keep the
  bits. Counters of type \<open>int\<close> that the code keeps between 0 and the request size are
  natural numbers; the request size itself is an \<open>int\<close>.
\<close>

subsection \<open>Data\<close>

type_synonym byte = "8 word"
type_synonym uint64 = "64 word"
type_synonym uint = "64 word"
type_synonym int64 = "64 word"
type_synonym uint32 = "32 word"
type_synonym ID = "byte list"
type_synonym Time = int

text \<open>
  Errors are values. \<open>LoaderError\<close> stands for any error value a \<open>BlobLoader\<close>
  returns, \<open>OffsetGreater\<close> for \<open>errors.New("offset greater than files size")\<close>,
  and \<open>Panic\<close> for a run-time panic (index or slice bounds out of range).
\<close>

datatype error = LoaderError string | OffsetGreater | Panic

datatype BlobType = DataBlob | TreeBlob

text \<open>
  A byte slice is its backing array from the slice's first element up to its capacity,
  and its length. The nil slice is \<open>None\<close> of \<open>slice option\<close>.
\<close>

record slice =
  arr :: "byte list"
  len :: nat

definition cap :: "slice \<Rightarrow> nat" where
  "cap s = length (arr s)"

definition bytes_of :: "slice \<Rightarrow> byte list" where
  "bytes_of s = take (len s) (arr s)"

definition make_slice :: "nat \<Rightarrow> slice" where
  "make_slice n = \<lparr>arr = replicate n 0, len = n\<rparr>"

text \<open>
  The interface \<open>BlobLoader\<close>. \<open>LoadBlob t id n\<close> is the call with a buffer of length
  \<open>n\<close>: the result is the bytes the loader writes at the start of the buffer, and the
  returned count is their number.
\<close>

record BlobLoader =
  LookupBlobSize :: "ID \<Rightarrow> BlobType \<Rightarrow> error + uint"
  LoadBlob :: "BlobType \<Rightarrow> ID \<Rightarrow> nat \<Rightarrow> error + byte list"

record Node =
  Name :: string
  Mode :: uint32
  ModTime :: Time
  AccessTime :: Time
  ChangeTime :: Time
  UID :: uint32
  GID :: uint32
  Inode :: uint64
  Size :: uint64
  Content :: "ID list"

record File =
  repo :: BlobLoader
  node :: Node
  ownerIsRoot :: bool
  sizes :: "uint list"
  blobs :: "slice option list"

text \<open>The fields of \<open>fuse.Attr\<close> that \<open>Attr\<close> writes.\<close>

record Attr =
  a_Inode :: uint64
  a_Size :: uint64
  a_Blocks :: uint64
  a_Atime :: Time
  a_Mtime :: Time
  a_Ctime :: Time
  a_Mode :: uint32
  a_Uid :: uint32
  a_Gid :: uint32
  a_BlockSize :: uint32

record ReadRequest =
  req_Offset :: int64
  req_Size :: int

record ReadResponse =
  Data :: slice

subsection \<open>The buffer pool\<close>

text \<open>
  \<open>blobPool\<close> is a \<open>sync.Pool\<close>; the model keeps its idle buffers in a list, \<open>Put\<close>
  adds at the front and \<open>Get\<close> takes from the front, or calls \<open>New\<close> when the list is
  empty.
\<close>

type_synonym Pool = "slice list"

definition blockSize :: nat where
  "blockSize = 512"

definition defaultBlobSize :: nat where
  "defaultBlobSize = 128 * 1024"

definition blobPool_New :: slice where
  "blobPool_New = make_slice defaultBlobSize"

definition blobPool_Get :: "Pool \<Rightarrow> slice \<times> Pool" where
  "blobPool_Get pool = (case pool of [] \<Rightarrow> (blobPool_New, []) | b # bs \<Rightarrow> (b, bs))"

definition blobPool_Put :: "slice \<Rightarrow> Pool \<Rightarrow> Pool" where
  "blobPool_Put b pool = b # pool"

subsection \<open>newFile\<close>

fun newFile_loop ::
  "BlobLoader \<Rightarrow> ID list \<Rightarrow> nat \<Rightarrow> uint list \<Rightarrow> uint64 \<Rightarrow> error + (uint list \<times> uint64)" where
  "newFile_loop r [] i szs bytes = Inr (szs, bytes)"
| "newFile_loop r (ident # ids) i szs bytes =
     (case LookupBlobSize r ident DataBlob of
        Inl err \<Rightarrow> Inl err
      | Inr sz \<Rightarrow> newFile_loop r ids (i + 1) (szs[i := sz]) (bytes + sz))"

definition newFile :: "BlobLoader \<Rightarrow> Node \<Rightarrow> bool \<Rightarrow> error + File" where
  "newFile r n owner =
     (case newFile_loop r (Content n) 0 (replicate (length (Content n)) 0) 0 of
        Inl err \<Rightarrow> Inl err
      | Inr (szs, bytes) \<Rightarrow>
          Inr \<lparr>repo = r,
               node = (if bytes \<noteq> Size n then n\<lparr>Size := bytes\<rparr> else n),
               ownerIsRoot = owner,
               sizes = szs,
               blobs = replicate (length (Content n)) None\<rparr>)"

subsection \<open>Attr\<close>

definition Attr :: "File \<Rightarrow> Attr \<Rightarrow> error option \<times> Attr" where
  "Attr f a =
     (let a1 = a\<lparr>a_Inode := Inode (node f),
                 a_Mode := Mode (node f),
                 a_Size := Size (node f),
                 a_Blocks := (Size (node f) div of_nat blockSize) + 1,
                 a_BlockSize := of_nat blockSize\<rparr>;
          a2 = (if \<not> ownerIsRoot f
                then a1\<lparr>a_Uid := UID (node f), a_Gid := GID (node f)\<rparr>
                else a1)
      in (None, a2\<lparr>a_Atime := AccessTime (node f),
                   a_Ctime := ChangeTime (node f),
                   a_Mtime := ModTime (node f)\<rparr>))"

subsection \<open>getBlobAt\<close>

text \<open>
  The buffer taken from the pool is resliced to its capacity. When it is shorter than the
  blob, it goes back to the pool only if it is longer than \<open>defaultBlobSize\<close>, and a
  buffer of the blob's size is made. \<open>buf[:n]\<close> panics when \<open>n\<close> exceeds the capacity.
\<close>

definition getBlobAt :: "File \<Rightarrow> Pool \<Rightarrow> nat \<Rightarrow> (error + slice) \<times> File \<times> Pool" where
  "getBlobAt f pool i =
     (if length (blobs f) \<le> i then (Inl Panic, f, pool)
      else case blobs f ! i of
        Some b \<Rightarrow> (Inr b, f, pool)
      | None \<Rightarrow>
          (let (got, pool1) = blobPool_Get pool;
               buf = got\<lparr>len := cap got\<rparr>
           in if length (sizes f) \<le> i then (Inl Panic, f, pool1)
              else
                let (buf2, pool2) =
                      (if len buf < unat (sizes f ! i)
                       then (make_slice (unat (sizes f ! i)),
                             if len buf > defaultBlobSize then blobPool_Put buf pool1 else pool1)
                       else (buf, pool1))
                in if length (Content (node f)) \<le> i then (Inl Panic, f, pool2)
                   else case LoadBlob (repo f) DataBlob (Content (node f) ! i) (len buf2) of
                     Inl err \<Rightarrow> (Inl err, f, pool2)
                   | Inr written \<Rightarrow>
                       if cap buf2 < length written then (Inl Panic, f, pool2)
                       else
                         let b = \<lparr>arr = written @ drop (length written) (arr buf2),
                                  len = length written\<rparr>
                         in (Inr b, f\<lparr>blobs := (blobs f)[i := Some b]\<rparr>, pool2)))"

subsection \<open>Read\<close>

text \<open>The loop that skips the blobs before the offset; the comparison is signed.\<close>

function skip_blobs :: "uint list \<Rightarrow> int64 \<Rightarrow> nat \<Rightarrow> error + (int64 \<times> nat)" where
  "skip_blobs szs offset startContent =
     (if length szs \<le> startContent then Inl Panic
      else if szs ! startContent <s offset
           then skip_blobs szs (offset - szs ! startContent) (startContent + 1)
           else Inr (offset, startContent))"
  by pat_completeness auto
termination
  by (relation "measure (\<lambda>(szs, offset, startContent). length szs - startContent)") auto

text \<open>\<open>blob[offset:len(blob)]\<close>, which panics when the offset is beyond the length.\<close>

definition slice_from :: "slice \<Rightarrow> nat \<Rightarrow> error + slice" where
  "slice_from b k =
     (if len b < k then Inl Panic
      else Inr \<lparr>arr = drop k (arr b), len = len b - k\<rparr>)"

text \<open>
  \<open>copy(dst, blob)\<close> where \<open>dst\<close> starts at index \<open>pos\<close> of the array \<open>a\<close>: the first
  \<open>n\<close> bytes of the source replace the bytes of \<open>a\<close> from \<open>pos\<close> on.
\<close>

definition copy_at :: "byte list \<Rightarrow> nat \<Rightarrow> byte list \<Rightarrow> nat \<Rightarrow> byte list" where
  "copy_at a pos src n = take pos a @ take n src @ drop (pos + n) a"

text \<open>
  The copying loop. \<open>a\<close> is the backing array of \<open>resp.Data\<close>; \<open>dst\<close> is always
  \<open>resp.Data[readBytes:req.Size]\<close>, so its length is \<open>remainingBytes\<close>.
\<close>

function read_loop ::
  "File \<Rightarrow> Pool \<Rightarrow> nat \<Rightarrow> int64 \<Rightarrow> nat \<Rightarrow> nat \<Rightarrow> byte list
     \<Rightarrow> (error + nat) \<times> byte list \<times> File \<times> Pool" where
  "read_loop f pool i offset remainingBytes readBytes a =
     (if remainingBytes > 0 \<and> i < length (sizes f) then
        (case getBlobAt f pool i of
           (Inl err, f1, pool1) \<Rightarrow> (Inl err, a, f1, pool1)
         | (Inr blob, f1, pool1) \<Rightarrow>
             (case (if 0 <s offset then slice_from blob (unat offset) else Inr blob) of
                Inl err \<Rightarrow> (Inl err, a, f1, pool1)
              | Inr blob1 \<Rightarrow>
                  (let copied = min remainingBytes (len blob1)
                   in read_loop f1 pool1 (i + 1) (if 0 <s offset then 0 else offset)
                        (remainingBytes - copied) (readBytes + copied)
                        (copy_at a readBytes (bytes_of blob1) copied))))
      else (Inr readBytes, a, f, pool))"
  by pat_completeness auto
termination
proof (relation "measure (\<lambda>(f, pool, i, offset, remainingBytes, readBytes, a). length (sizes f) - i)")
  show "wf (measure (\<lambda>(f, pool, i, offset, remainingBytes, readBytes, a). length (sizes f) - i))"
    by simp
next
  fix f :: File and pool :: Pool and i :: nat and offset :: int64
    and remainingBytes readBytes :: nat and a :: "byte list"
    and x :: "error + slice" and y :: "File \<times> Pool" and blob :: slice
    and f1 :: File and pool1 :: Pool and blob1 :: slice and copied :: nat
  assume c: "0 < remainingBytes \<and> i < length (sizes f)"
    and g: "(x, y) = getBlobAt f pool i" and y: "(f1, pool1) = y"
  have "sizes (fst (snd (getBlobAt f pool i))) = sizes f"
    by (simp add: getBlobAt_def Let_def split: option.splits prod.splits sum.splits)
  moreover from g y have "f1 = fst (snd (getBlobAt f pool i))"
    by (metis fst_conv snd_conv)
  ultimately have "sizes f1 = sizes f"
    by simp
  with c show "((f1, pool1, i + 1, (if 0 <s offset then 0 else offset),
                 remainingBytes - copied, readBytes + copied,
                 copy_at a readBytes (bytes_of blob1) copied),
                f, pool, i, offset, remainingBytes, readBytes, a)
               \<in> measure (\<lambda>(f, pool, i, offset, remainingBytes, readBytes, a). length (sizes f) - i)"
    by auto
qed

definition Read ::
  "File \<Rightarrow> Pool \<Rightarrow> ReadRequest \<Rightarrow> ReadResponse \<Rightarrow> error option \<times> ReadResponse \<times> File \<times> Pool" where
  "Read f pool req resp =
     (let offset = req_Offset req in
      if Size (node f) < offset then (Some OffsetGreater, resp, f, pool)
      else if Size (node f) = 0 then (None, resp\<lparr>Data := (Data resp)\<lparr>len := 0\<rparr>\<rparr>, f, pool)
      else case skip_blobs (sizes f) offset 0 of
        Inl err \<Rightarrow> (Some err, resp, f, pool)
      | Inr (offset1, startContent) \<Rightarrow>
          if req_Size req < 0 \<or> int (cap (Data resp)) < req_Size req
          then (Some Panic, resp, f, pool)
          else (case read_loop f pool startContent offset1 (nat (req_Size req)) 0 (arr (Data resp)) of
            (Inl err, a, f1, pool1) \<Rightarrow> (Some err, resp\<lparr>Data := (Data resp)\<lparr>arr := a\<rparr>\<rparr>, f1, pool1)
          | (Inr readBytes, a, f1, pool1) \<Rightarrow>
              (None, resp\<lparr>Data := \<lparr>arr = a, len = readBytes\<rparr>\<rparr>, f1, pool1)))"

subsection \<open>Release\<close>

function Release_loop :: "slice option list \<Rightarrow> nat \<Rightarrow> Pool \<Rightarrow> slice option list \<times> Pool" where
  "Release_loop bs i pool =
     (if i < length bs then
        (case bs ! i of
           None \<Rightarrow> Release_loop bs (i + 1) pool
         | Some b \<Rightarrow> Release_loop (bs[i := None]) (i + 1) (blobPool_Put b pool))
      else (bs, pool))"
  by pat_completeness auto
termination
  by (relation "measure (\<lambda>(bs, i, pool). length bs - i)") auto

definition Release :: "File \<Rightarrow> Pool \<Rightarrow> error option \<times> File \<times> Pool" where
  "Release f pool =
     (let (bs, pool1) = Release_loop (blobs f) 0 pool
      in (None, f\<lparr>blobs := bs\<rparr>, pool1))"

subsection \<open>Files and the chunks behind them\<close>


definition file_ok :: "File \<Rightarrow> byte list list \<Rightarrow> bool" where
  "file_ok f chunks \<longleftrightarrow>
     length (sizes f) = length (Content (node f)) \<and>
     length (blobs f) = length (Content (node f)) \<and>
     Size (node f) = sum_list (sizes f) \<and>
     (\<forall>i < length (blobs f). \<forall>b. blobs f ! i = Some b \<longrightarrow>
        bytes_of b = chunks ! i \<and> len b = length (chunks ! i))"

subsection \<open>Example inputs\<close>

text \<open>
  A repository with two blobs, \<open>[1]\<close> of three bytes and \<open>[2]\<close> of two, whose loads
  need a buffer that holds the blob; a node over both that declares the stale size 9, the
  file that \<open>newFile\<close> builds from it, and an empty file; a node that names an
  unknown blob; a repository whose loads fail, and the file over it; the contents of the
  two blobs.
\<close>

definition ex_repo :: BlobLoader where
  "ex_repo =
     \<lparr>LookupBlobSize = (\<lambda>ident t.
          if ident = [1] then Inr 3 else if ident = [2] then Inr 2
          else Inl (LoaderError ''unknown blob'')),
      LoadBlob = (\<lambda>t ident n.
          if ident = [1] \<and> 3 \<le> n then Inr [10, 11, 12]
          else if ident = [2] \<and> 2 \<le> n then Inr [20, 21]
          else Inl (LoaderError ''load failed''))\<rparr>"

definition ex_node :: Node where
  "ex_node = \<lparr>Name = ''a'', Mode = 420, ModTime = 0, AccessTime = 0, ChangeTime = 0,
              UID = 1000, GID = 1000, Inode = 7, Size = 9, Content = [[1], [2]]\<rparr>"

definition ex_file :: File where
  "ex_file = \<lparr>repo = ex_repo, node = ex_node\<lparr>Size := 5\<rparr>, ownerIsRoot = False,
              sizes = [3, 2], blobs = [None, None]\<rparr>"

definition empty_node :: Node where
  "empty_node = \<lparr>Name = ''e'', Mode = 420, ModTime = 0, AccessTime = 0, ChangeTime = 0,
                 UID = 1000, GID = 1000, Inode = 8, Size = 0, Content = []\<rparr>"

definition empty_file :: File where
  "empty_file = \<lparr>repo = ex_repo, node = empty_node, ownerIsRoot = False,
                 sizes = [], blobs = []\<rparr>"

definition bad_node :: Node where
  "bad_node = \<lparr>Name = ''b'', Mode = 420, ModTime = 0, AccessTime = 0, ChangeTime = 0,
               UID = 1000, GID = 1000, Inode = 9, Size = 5, Content = [[1], [3]]\<rparr>"

definition zero_attr :: Attr where
  "zero_attr = \<lparr>a_Inode = 0, a_Size = 0, a_Blocks = 0, a_Atime = 0, a_Mtime = 0, a_Ctime = 0,
                a_Mode = 0, a_Uid = 0, a_Gid = 0, a_BlockSize = 0\<rparr>"

definition fail_repo :: BlobLoader where
  "fail_repo = ex_repo\<lparr>LoadBlob := (\<lambda>t ident n. Inl (LoaderError ''backend down''))\<rparr>"

definition fail_file :: File where
  "fail_file = ex_file\<lparr>repo := fail_repo\<rparr>"

definition ex_chunks :: "byte list list" where
  "ex_chunks = [[10, 11, 12], [20, 21]]"

text \<open>
  A repository in which every blob has \<open>2 ^ 63\<close> bytes, a node over two of its blobs that
  declares the size 0, and the file that \<open>newFile\<close> builds from it.
\<close>

definition big_repo :: BlobLoader where
  "big_repo = ex_repo\<lparr>LookupBlobSize := (\<lambda>ident t. Inr 9223372036854775808)\<rparr>"

definition big_node :: Node where
  "big_node = ex_node\<lparr>Size := 0\<rparr>"

definition big_file :: File where
  "big_file = \<lparr>repo = big_repo, node = big_node, ownerIsRoot = False,
               sizes = [9223372036854775808, 9223372036854775808], blobs = [None, None]\<rparr>"

section \<open>Properties\<close>

subsection \<open>Signed and unsigned readings of a 64-bit value\<close>

lemma sint64_cases:
  "sint (x :: 64 word) = (if uint x < 2 ^ 63 then uint x else uint x - 2 ^ 64)"
proof -
  have b: "0 \<le> uint x" "uint x < 2 ^ 64"
    using uint_lt2p [of x] by simp_all
  have "sint x = (uint x + 2 ^ 63) mod 2 ^ 64 - 2 ^ 63"
    by (simp add: sint_uint signed_take_bit_eq_take_bit_shift take_bit_eq_mod)
  moreover have "uint x < 2 ^ 63 \<Longrightarrow> (uint x + 2 ^ 63) mod 2 ^ 64 = uint x + 2 ^ 63"
    using b by (simp add: mod_pos_pos_trivial)
  moreover have "\<not> uint x < 2 ^ 63 \<Longrightarrow> (uint x + 2 ^ 63) mod 2 ^ 64 = uint x + 2 ^ 63 - 2 ^ 64"
  proof -
    assume a: "\<not> uint x < 2 ^ 63"
    have "(uint x + 2 ^ 63) mod 2 ^ 64 = (uint x + 2 ^ 63 - 2 ^ 64) mod 2 ^ 64"
      by (metis mod_diff_right_eq mod_self diff_zero)
    also have "\<dots> = uint x + 2 ^ 63 - 2 ^ 64"
      using a b by (simp add: mod_pos_pos_trivial)
    finally show ?thesis .
  qed
  ultimately show ?thesis by simp
qed

lemma sint_neg_uint: "sint (x :: 64 word) < 0 \<Longrightarrow> 2 ^ 63 \<le> uint x"
  using uint_lt2p [of x] by (simp add: sint64_cases split: if_splits)



lemma unat_small_uint: "unat (x :: 64 word) < 2 ^ 63 \<Longrightarrow> uint x < 2 ^ 63"
proof -
  assume a: "unat x < 2 ^ 63"
  have "int (unat x) < int (2 ^ 63)" using a by (rule iffD2 [OF of_nat_less_iff])
  then show ?thesis by simp
qed

lemma newFile_ex: "newFile ex_repo ex_node False = Inr ex_file"
  by (simp add: newFile_def ex_repo_def ex_node_def ex_file_def)

lemma newFile_empty: "newFile ex_repo empty_node False = Inr empty_file"
  by (simp add: newFile_def empty_node_def empty_file_def)

subsection \<open>Attr\<close>

text \<open>
  Claim C8. \<open>Attr\<close> never fails, reports the block size 512 and the block count
  \<open>size / 512 + 1\<close> with integer division; the sum does not wrap, so the count read as a
  number is \<open>size div 512 + 1\<close>. Size 0 gives 1 block, size 512 gives 2 and size 1024
  gives 3.
\<close>

theorem Attr_blocks:
  "fst (Attr f a) = None \<and>
   a_BlockSize (snd (Attr f a)) = 512 \<and>
   a_Blocks (snd (Attr f a)) = Size (node f) div 512 + 1 \<and>
   unat (a_Blocks (snd (Attr f a))) = unat (Size (node f)) div 512 + 1 \<and>
   a_Blocks (snd (Attr (f\<lparr>node := (node f)\<lparr>Size := 0\<rparr>\<rparr>) a)) = 1 \<and>
   a_Blocks (snd (Attr (f\<lparr>node := (node f)\<lparr>Size := 512\<rparr>\<rparr>) a)) = 2 \<and>
   a_Blocks (snd (Attr (f\<lparr>node := (node f)\<lparr>Size := 1024\<rparr>\<rparr>) a)) = 3"
proof -
  have "unat (Size (node f)) < 2 ^ 64"
    using unsigned_less [of "Size (node f)", where 'a = nat] by simp
  then have "unat (Size (node f)) div 512 + 1 < 2 ^ 64"
    by simp
  then have "unat (Size (node f) div 512 + 1) = unat (Size (node f)) div 512 + 1"
    by (simp add: unat_div unat_word_ariths)
  then show ?thesis
    by (simp add: Attr_def Let_def blockSize_def)
qed

subsection \<open>Read: offsets out of range\<close>


text \<open>
  Claim C10. When the node size is below \<open>2 ^ 63\<close>, a read at a negative offset fails
  with the offset error: the offset converted to \<open>uint64\<close> is at least \<open>2 ^ 63\<close>. The
  file and the pool come back unchanged, whatever the repository is, so no blob is loaded.
\<close>

theorem Read_negative_offset:
  "unat (Size (node f)) < 2 ^ 63 \<Longrightarrow> sint (req_Offset req) < 0 \<Longrightarrow>
     Read f pool req resp = (Some OffsetGreater, resp, f, pool)"
proof -
  assume a: "unat (Size (node f)) < 2 ^ 63" and b: "sint (req_Offset req) < 0"
  from b have "2 ^ 63 \<le> uint (req_Offset req)" by (rule sint_neg_uint)
  moreover from a have "uint (Size (node f)) < 2 ^ 63"
    by (rule unat_small_uint)
  ultimately have "uint (Size (node f)) < uint (req_Offset req)"
    by linarith
  then have "Size (node f) < req_Offset req"
    unfolding word_less_def .
  then show ?thesis by (simp add: Read_def)
qed

theorem Read_negative_offset_witness:
  "unat (Size (node ex_file)) < 2 ^ 63 \<and>
   sint (req_Offset \<lparr>req_Offset = - 1, req_Size = 2\<rparr>) < 0 \<and>
   Read ex_file [] \<lparr>req_Offset = - 1, req_Size = 2\<rparr> \<lparr>Data = make_slice 2\<rparr>
     = (Some OffsetGreater, \<lparr>Data = make_slice 2\<rparr>, ex_file, [])"
proof -
  have h1: "unat (Size (node ex_file)) < 2 ^ 63"
    by (simp add: ex_file_def)
  have h2: "sint (req_Offset \<lparr>req_Offset = - 1, req_Size = 2\<rparr>) < 0"
    by simp
  from Read_negative_offset [OF h1 h2] h1 h2 show ?thesis by blast
qed

subsection \<open>Read: the empty file\<close>

text \<open>
  Claim C4 as stated (an empty file returns an empty result without error at every offset)
  fails: the offset check comes before the check for the empty file. The file that
  \<open>newFile\<close> builds from a node without content has size 0, and a read at offset 1 fails
  with the offset error.
\<close>

theorem Read_empty_any_offset_counterexample:
  "newFile ex_repo empty_node False = Inr empty_file \<and>
   Size (node empty_file) = 0 \<and>
   Read empty_file [] \<lparr>req_Offset = 1, req_Size = 0\<rparr> \<lparr>Data = make_slice 0\<rparr>
     = (Some OffsetGreater, \<lparr>Data = make_slice 0\<rparr>, empty_file, [])"
  by (simp add: newFile_empty) (simp add: Read_def empty_file_def empty_node_def)

text \<open>
  Claim C4, amended. On a file of size 0, a read at offset 0 succeeds with an empty result
  for every requested length and every response buffer, and leaves the file and the pool
  unchanged; a read at any other offset fails with the offset error.
\<close>

theorem Read_empty_file:
  "Size (node f) = 0 \<Longrightarrow>
     (req_Offset req = 0 \<longrightarrow>
        Read f pool req resp = (None, resp\<lparr>Data := (Data resp)\<lparr>len := 0\<rparr>\<rparr>, f, pool) \<and>
        bytes_of (Data (fst (snd (Read f pool req resp)))) = []) \<and>
     (req_Offset req \<noteq> 0 \<longrightarrow>
        Read f pool req resp = (Some OffsetGreater, resp, f, pool))"
  by (simp add: Read_def bytes_of_def word_gt_0)

theorem Read_empty_file_witness:
  "Size (node empty_file) = 0 \<and>
   Read empty_file [] \<lparr>req_Offset = 0, req_Size = - 4\<rparr> \<lparr>Data = \<lparr>arr = [0, 0], len = 2\<rparr>\<rparr>
     = (None, \<lparr>Data = \<lparr>arr = [0, 0], len = 0\<rparr>\<rparr>, empty_file, []) \<and>
   Read empty_file [] \<lparr>req_Offset = 3, req_Size = 1\<rparr> \<lparr>Data = \<lparr>arr = [0, 0], len = 2\<rparr>\<rparr>
     = (Some OffsetGreater, \<lparr>Data = \<lparr>arr = [0, 0], len = 2\<rparr>\<rparr>, empty_file, [])"
proof -
  have h: "Size (node empty_file) = 0"
    by (simp add: empty_file_def empty_node_def)
  from Read_empty_file [OF h, of "\<lparr>req_Offset = 0, req_Size = - 4\<rparr>" "[]"
      "\<lparr>Data = \<lparr>arr = [0, 0], len = 2\<rparr>\<rparr>"]
       Read_empty_file [OF h, of "\<lparr>req_Offset = 3, req_Size = 1\<rparr>" "[]"
      "\<lparr>Data = \<lparr>arr = [0, 0], len = 2\<rparr>\<rparr>"]
       h
  show ?thesis by simp
qed

subsection \<open>newFile\<close>

text \<open>
  What the loop of \<open>newFile\<close> returns: on success the looked-up sizes, written over the
  slots from \<open>i\<close> on, and their wrapping sum; on failure the error of the first lookup
  that fails.
\<close>

lemma newFile_loop_Inr:
  "newFile_loop r ids i szs b = Inr (szs1, b1) \<Longrightarrow> i + length ids \<le> length szs \<Longrightarrow>
     \<exists>vals. map (\<lambda>ident. LookupBlobSize r ident DataBlob) ids = map Inr vals \<and>
            szs1 = take i szs @ vals @ drop (i + length ids) szs \<and>
            b1 = b + sum_list vals"
proof (induction ids arbitrary: i szs b)
  case Nil
  then show ?case by simp
next
  case (Cons ident ids)
  from Cons.prems(1) obtain sz where
    sz: "LookupBlobSize r ident DataBlob = Inr sz" and
    rec: "newFile_loop r ids (i + 1) (szs[i := sz]) (b + sz) = Inr (szs1, b1)"
    by (auto split: sum.splits)
  from Cons.prems(2) have le: "(i + 1) + length ids \<le> length (szs[i := sz])" and i: "i < length szs"
    by simp_all
  from Cons.IH [OF rec le] obtain vals where
    v: "map (\<lambda>ident. LookupBlobSize r ident DataBlob) ids = map Inr vals"
       "szs1 = take (i + 1) (szs[i := sz]) @ vals @ drop (i + 1 + length ids) (szs[i := sz])"
       "b1 = b + sz + sum_list vals"
    by blast
  have t: "take (Suc i) (szs[i := sz]) = take i szs @ [sz]"
  proof -
    from i have "i < length (szs[i := sz])" by simp
    then have "take (Suc i) (szs[i := sz]) = take i (szs[i := sz]) @ [szs[i := sz] ! i]"
      by (rule take_Suc_conv_app_nth)
    moreover have "take i (szs[i := sz]) = take i szs" by simp
    moreover from i have "szs[i := sz] ! i = sz" by simp
    ultimately show ?thesis by (simp only:)
  qed
  show ?case
    by (rule exI [of _ "sz # vals"]) (simp add: sz v t add.assoc)
qed

lemma newFile_loop_Inl:
  "newFile_loop r ids i szs b = Inl e \<Longrightarrow>
     \<exists>pre bad post. ids = pre @ bad # post \<and>
        (\<forall>x \<in> set pre. \<exists>s. LookupBlobSize r x DataBlob = Inr s) \<and>
        LookupBlobSize r bad DataBlob = Inl e"
proof (induction ids arbitrary: i szs b)
  case Nil
  then show ?case by simp
next
  case (Cons ident ids)
  show ?case
  proof (cases "LookupBlobSize r ident DataBlob")
    case (Inl e1)
    with Cons.prems have "e1 = e" by simp
    with Inl have "ident # ids = [] @ ident # ids \<and>
        (\<forall>x \<in> set []. \<exists>s. LookupBlobSize r x DataBlob = Inr s) \<and>
        LookupBlobSize r ident DataBlob = Inl e" by simp
    then show ?thesis by blast
  next
    case (Inr sz)
    with Cons.prems have "newFile_loop r ids (i + 1) (szs[i := sz]) (b + sz) = Inl e"
      by simp
    from Cons.IH [OF this] obtain pre bad post where
      p: "ids = pre @ bad # post" "\<forall>x \<in> set pre. \<exists>s. LookupBlobSize r x DataBlob = Inr s"
         "LookupBlobSize r bad DataBlob = Inl e"
      by blast
    from p Inr have "ident # ids = (ident # pre) @ bad # post \<and>
        (\<forall>x \<in> set (ident # pre). \<exists>s. LookupBlobSize r x DataBlob = Inr s) \<and>
        LookupBlobSize r bad DataBlob = Inl e" by simp
    then show ?thesis by blast
  qed
qed

lemma newFile_Inr:
  assumes "newFile r n owner = Inr f"
  shows "map (\<lambda>ident. LookupBlobSize r ident DataBlob) (Content n) = map Inr (sizes f) \<and>
         f = \<lparr>repo = r, node = n\<lparr>Size := sum_list (sizes f)\<rparr>, ownerIsRoot = owner,
              sizes = sizes f, blobs = replicate (length (Content n)) None\<rparr>"
proof -
  from assms obtain szs b where
    l: "newFile_loop r (Content n) 0 (replicate (length (Content n)) 0) 0 = Inr (szs, b)"
    and f: "f = \<lparr>repo = r, node = (if b \<noteq> Size n then n\<lparr>Size := b\<rparr> else n),
               ownerIsRoot = owner, sizes = szs,
               blobs = replicate (length (Content n)) None\<rparr>"
    by (auto simp: newFile_def split: sum.splits prod.splits)
  from newFile_loop_Inr [OF l] obtain vals where
    v: "map (\<lambda>ident. LookupBlobSize r ident DataBlob) (Content n) = map Inr vals"
       "szs = vals" "b = sum_list vals"
    by auto
  have "(if b \<noteq> Size n then n\<lparr>Size := b\<rparr> else n) = n\<lparr>Size := b\<rparr>"
    by simp
  with f v show ?thesis by simp
qed

lemma sum_list_unat:
  "sum_list (map unat (xs :: 64 word list)) < 2 ^ 64 \<Longrightarrow>
     unat (sum_list xs) = sum_list (map unat xs)"
proof (induction xs)
  case Nil
  then show ?case by simp
next
  case (Cons x xs)
  then have "unat (sum_list xs) = sum_list (map unat xs)" by simp
  with Cons.prems show ?case
    by (simp add: unat_word_ariths)
qed

lemma sum_list_unat_mod:
  "unat (sum_list (xs :: 64 word list)) = sum_list (map unat xs) mod 2 ^ 64"
proof (induction xs)
  case Nil
  then show ?case by simp
next
  case (Cons x xs)
  have "unat (x + sum_list xs) = (unat x + unat (sum_list xs)) mod 2 ^ 64"
    by (simp add: unat_word_ariths)
  also have "\<dots> = (unat x + sum_list (map unat xs) mod 2 ^ 64) mod 2 ^ 64"
    by (simp only: Cons.IH)
  also have "\<dots> = (unat x + sum_list (map unat xs)) mod 2 ^ 64"
    by (rule mod_add_right_eq)
  finally show ?case by simp
qed

text \<open>
  Claim C5. If the size lookup fails for a blob of the node's content, \<open>newFile\<close>
  returns the error of the first failing lookup, unchanged, and no file: the content
  splits into blobs whose lookups succeed, the first blob whose lookup fails with \<open>e\<close>,
  and the rest, and the result is \<open>Inl e\<close>.
\<close>

theorem newFile_lookup_error:
  assumes "ident \<in> set (Content n)" and "LookupBlobSize r ident DataBlob = Inl e0"
  shows "\<exists>pre bad post e. Content n = pre @ bad # post \<and>
           (\<forall>x \<in> set pre. \<exists>s. LookupBlobSize r x DataBlob = Inr s) \<and>
           LookupBlobSize r bad DataBlob = Inl e \<and>
           newFile r n owner = Inl e"
proof (cases "newFile r n owner")
  case (Inl e)
  then have "newFile_loop r (Content n) 0 (replicate (length (Content n)) 0) 0 = Inl e"
    by (auto simp: newFile_def split: sum.splits prod.splits)
  from newFile_loop_Inl [OF this] Inl show ?thesis by blast
next
  case (Inr f)
  from newFile_Inr [OF Inr]
  have m: "map (\<lambda>ident. LookupBlobSize r ident DataBlob) (Content n) = map Inr (sizes f)"
    by simp
  from assms(1) obtain k where k: "k < length (Content n)" "Content n ! k = ident"
    by (auto simp: in_set_conv_nth)
  from m have "length (Content n) = length (sizes f)"
    by (metis length_map)
  with k m have "LookupBlobSize r ident DataBlob = Inr (sizes f ! k)"
    by (metis nth_map)
  with assms(2) show ?thesis by simp
qed

theorem newFile_lookup_error_witness:
  "[3] \<in> set (Content bad_node) \<and>
   LookupBlobSize ex_repo [3] DataBlob = Inl (LoaderError ''unknown blob'') \<and>
   (\<exists>pre bad post e. Content bad_node = pre @ bad # post \<and>
      (\<forall>x \<in> set pre. \<exists>s. LookupBlobSize ex_repo x DataBlob = Inr s) \<and>
      LookupBlobSize ex_repo bad DataBlob = Inl e \<and>
      newFile ex_repo bad_node False = Inl e)"
proof -
  have h1: "[3] \<in> set (Content bad_node)"
    by (simp add: bad_node_def)
  have h2: "LookupBlobSize ex_repo [3] DataBlob = Inl (LoaderError ''unknown blob'')"
    by (simp add: ex_repo_def)
  from newFile_lookup_error [OF h1 h2, of False] h1 h2 show ?thesis by blast
qed

lemma newFile_bad: "newFile ex_repo bad_node False = Inl (LoaderError ''unknown blob'')"
  by (simp add: newFile_def ex_repo_def bad_node_def)

text \<open>
  Claim C2 as stated, for every node, fails: \<open>newFile\<close> adds the looked-up sizes in a
  \<open>uint64\<close>, and the sum wraps. The node declares the size 0 and has two blobs of
  \<open>2 ^ 63\<close> bytes each, so the declared size differs from the sum \<open>2 ^ 64\<close> of the
  looked-up sizes; \<open>newFile\<close> succeeds, the wrapped sum 0 equals the declared size, the
  node is left as it is, and \<open>Attr\<close> reports the declared size, which is not the sum.
\<close>

theorem newFile_Attr_stale_counterexample:
  "Content big_node = [[1], [2]] \<and>
   LookupBlobSize big_repo [1] DataBlob = Inr 9223372036854775808 \<and>
   LookupBlobSize big_repo [2] DataBlob = Inr 9223372036854775808 \<and>
   unat (Size big_node) \<noteq> unat (9223372036854775808 :: uint) + unat (9223372036854775808 :: uint) \<and>
   newFile big_repo big_node False = Inr big_file \<and>
   a_Size (snd (Attr big_file zero_attr)) = Size big_node \<and>
   unat (a_Size (snd (Attr big_file zero_attr)))
     \<noteq> unat (9223372036854775808 :: uint) + unat (9223372036854775808 :: uint)"
proof -
  have n: "newFile big_repo big_node False = Inr big_file"
    by (simp add: newFile_def big_repo_def big_node_def big_file_def ex_node_def)
  have a: "a_Size (snd (Attr big_file zero_attr)) = 0" "Size big_node = 0"
    by (simp_all add: Attr_def Let_def big_file_def big_node_def)
  have c: "Content big_node = [[1], [2]]"
    by (simp add: big_node_def ex_node_def)
  have l: "LookupBlobSize big_repo [1] DataBlob = Inr 9223372036854775808"
    "LookupBlobSize big_repo [2] DataBlob = Inr 9223372036854775808"
    by (simp_all add: big_repo_def)
  from n a c l show ?thesis by simp
qed

text \<open>
  Claim C2, amended. Let the lookups of the node's content succeed with sizes \<open>szs\<close>. After
  a successful \<open>newFile\<close>, \<open>Attr\<close> reports the \<open>uint64\<close> sum of the looked-up sizes, that
  is their sum modulo \<open>2 ^ 64\<close>, whatever size the node declared. When the sum is below
  \<open>2 ^ 64\<close>, \<open>Attr\<close> reports the sum itself, and when moreover the declared size differs
  from the sum, the size reported is not the declared one.
\<close>

theorem newFile_Attr_size:
  assumes "newFile r n owner = Inr f"
    and "map (\<lambda>ident. LookupBlobSize r ident DataBlob) (Content n) = map Inr szs"
  shows "a_Size (snd (Attr f a)) = sum_list szs \<and>
         unat (a_Size (snd (Attr f a))) = sum_list (map unat szs) mod 2 ^ 64 \<and>
         (sum_list (map unat szs) < 2 ^ 64 \<longrightarrow>
            unat (a_Size (snd (Attr f a))) = sum_list (map unat szs) \<and>
            (unat (Size n) \<noteq> sum_list (map unat szs) \<longrightarrow> a_Size (snd (Attr f a)) \<noteq> Size n))"
proof -
  from newFile_Inr [OF assms(1)]
  have m: "map (\<lambda>ident. LookupBlobSize r ident DataBlob) (Content n) = map Inr (sizes f)"
    and s: "Size (node f) = sum_list (sizes f)"
    by (simp, metis File.select_convs(2) Node.select_convs(9) Node.surjective Node.update_convs(9))
  from m assms(2) have "map Inr (sizes f) = (map Inr szs :: (error + uint) list)" by simp
  then have "sizes f = szs"
    by (simp add: inj_map_eq_map)
  with s have a: "a_Size (snd (Attr f a)) = sum_list szs"
    by (simp add: Attr_def Let_def)
  have u: "unat (sum_list szs) = sum_list (map unat szs) mod 2 ^ 64"
    by (rule sum_list_unat_mod)
  have e: "unat (sum_list szs) = sum_list (map unat szs)"
    if "sum_list (map unat szs) < 2 ^ 64"
    using that by (rule sum_list_unat)
  from a u e show ?thesis by auto
qed

theorem newFile_Attr_size_witness:
  "newFile ex_repo ex_node False = Inr ex_file \<and>
   map (\<lambda>ident. LookupBlobSize ex_repo ident DataBlob) (Content ex_node) = map Inr [3, 2] \<and>
   sum_list (map unat [3, 2 :: uint]) < 2 ^ 64 \<and>
   unat (Size ex_node) \<noteq> sum_list (map unat [3, 2 :: uint]) \<and>
   a_Size (snd (Attr ex_file zero_attr)) = sum_list [3, 2] \<and>
   unat (a_Size (snd (Attr ex_file zero_attr))) = sum_list (map unat [3, 2 :: uint]) mod 2 ^ 64 \<and>
   unat (a_Size (snd (Attr ex_file zero_attr))) = sum_list (map unat [3, 2 :: uint]) \<and>
   a_Size (snd (Attr ex_file zero_attr)) \<noteq> Size ex_node"
proof -
  have h2: "map (\<lambda>ident. LookupBlobSize ex_repo ident DataBlob) (Content ex_node) = map Inr [3, 2]"
    by (simp add: ex_repo_def ex_node_def)
  have h3: "sum_list (map unat [3, 2 :: uint]) < 2 ^ 64"
    by simp
  have h4: "unat (Size ex_node) \<noteq> sum_list (map unat [3, 2 :: uint])"
    by (simp add: ex_node_def)
  from newFile_Attr_size [OF newFile_ex h2, of zero_attr] newFile_ex h2 h3 h4
  show ?thesis by blast
qed

subsection \<open>getBlobAt\<close>




lemma getBlobAt_ex:
  "getBlobAt ex_file [\<lparr>arr = [0, 0, 0, 0], len = 1\<rparr>] 0
     = (Inr \<lparr>arr = [10, 11, 12, 0], len = 3\<rparr>,
        ex_file\<lparr>blobs := [Some \<lparr>arr = [10, 11, 12, 0], len = 3\<rparr>, None]\<rparr>, [])"
  by (simp add: getBlobAt_def Let_def blobPool_Get_def cap_def ex_file_def ex_node_def ex_repo_def)

lemma getBlobAt_fail:
  "getBlobAt fail_file [\<lparr>arr = [0, 0, 0, 0], len = 1\<rparr>] 0
     = (Inl (LoaderError ''backend down''), fail_file, [])"
  by (simp add: getBlobAt_def Let_def blobPool_Get_def cap_def fail_file_def fail_repo_def
      ex_file_def ex_node_def ex_repo_def)

subsection \<open>Release\<close>

text \<open>
  The loop of \<open>Release\<close> clears every slot from \<open>i\<close> on and puts the buffers it finds
  there into the pool, the last one first.
\<close>

lemma Release_loop_eq:
  "Release_loop bs i pool =
     (take i bs @ replicate (length bs - i) None,
      rev (List.map_filter (\<lambda>x. x) (drop i bs)) @ pool)"
proof (induction bs i pool rule: Release_loop.induct)
  case (1 bs i pool)
  show ?case
  proof (cases "i < length bs")
    case False
    then show ?thesis by (simp add: List.map_filter_simps)
  next
    case True
    then have d: "drop i bs = bs ! i # drop (Suc i) bs"
      by (simp add: Cons_nth_drop_Suc)
    from True have r: "replicate (length bs - i) (None :: slice option)
        = None # replicate (length bs - Suc i) None"
      by (metis Suc_diff_Suc replicate_Suc)
    show ?thesis
    proof (cases "bs ! i")
      case None
      from True None have t: "take (Suc i) bs = take i bs @ [None]"
        by (simp add: take_Suc_conv_app_nth)
      from "1.IH"(1) [OF True None] True None
      have "Release_loop bs i pool =
          (take (Suc i) bs @ replicate (length bs - Suc i) None,
           rev (List.map_filter (\<lambda>x. x) (drop (Suc i) bs)) @ pool)"
        by simp
      with None show ?thesis
        by (simp only: d r t List.map_filter_simps) simp
    next
      case (Some b)
      from True have "i < length (bs[i := None])" by simp
      then have "take (Suc i) (bs[i := None]) = take i (bs[i := None]) @ [bs[i := None] ! i]"
        by (rule take_Suc_conv_app_nth)
      with True have t: "take (Suc i) (bs[i := None]) = take i bs @ [None]"
        by simp
      from "1.IH"(2) [OF True Some] True Some
      have "Release_loop bs i pool =
          (take (Suc i) (bs[i := None]) @ replicate (length bs - Suc i) None,
           rev (List.map_filter (\<lambda>x. x) (drop (Suc i) bs)) @ b # pool)"
        by (simp add: blobPool_Put_def)
      with Some show ?thesis
        by (simp only: d r t List.map_filter_simps) simp
    qed
  qed
qed

lemma map_filter_replicate_None:
  "List.map_filter (\<lambda>x. x) (replicate n (None :: slice option)) = []"
  by (induction n) (simp_all add: List.map_filter_simps)

text \<open>
  Claim C7. \<open>Release\<close> returns no error, leaves every cache slot empty, puts every cached
  buffer into the pool, and changes nothing else; a second \<open>Release\<close> changes neither the
  file nor the pool.
\<close>

theorem Release_clears:
  "Release f pool =
     (None, f\<lparr>blobs := replicate (length (blobs f)) None\<rparr>,
      rev (List.map_filter (\<lambda>x. x) (blobs f)) @ pool) \<and>
   Release (fst (snd (Release f pool))) (snd (snd (Release f pool))) = Release f pool"
proof -
  have a: "Release g p =
     (None, g\<lparr>blobs := replicate (length (blobs g)) None\<rparr>,
      rev (List.map_filter (\<lambda>x. x) (blobs g)) @ p)" for g p
    by (simp add: Release_def Release_loop_eq del: Release_loop.simps)
  show ?thesis
    by (simp add: a map_filter_replicate_None)
qed

subsection \<open>Read: the bytes returned\<close>

declare skip_blobs.simps [simp del] read_loop.simps [simp del] Release_loop.simps [simp del]

text \<open>Below \<open>2 ^ 63\<close> the signed and the unsigned comparison agree.\<close>

lemma unat_lt_iff_uint: "unat (x :: 64 word) < 2 ^ 63 \<longleftrightarrow> uint x < 2 ^ 63"
proof
  assume "unat x < 2 ^ 63"
  then show "uint x < 2 ^ 63" by (rule unat_small_uint)
next
  assume a: "uint x < 2 ^ 63"
  have "int (unat x) < int (2 ^ 63)" using a by simp
  then show "unat x < 2 ^ 63" by (rule iffD1 [OF of_nat_less_iff])
qed













text \<open>\<open>newFile\<close> builds a well-formed file, and \<open>Release\<close> keeps it well-formed.\<close>

lemma newFile_file_ok:
  assumes "newFile r n owner = Inr f"
  shows "file_ok f chunks"
proof -
  from newFile_Inr [OF assms]
  have m: "map (\<lambda>ident. LookupBlobSize r ident DataBlob) (Content n) = map Inr (sizes f)"
    and f: "f = \<lparr>repo = r, node = n\<lparr>Size := sum_list (sizes f)\<rparr>, ownerIsRoot = owner,
              sizes = sizes f, blobs = replicate (length (Content n)) None\<rparr>"
    by simp_all
  from m have l: "length (Content n) = length (sizes f)"
    by (metis length_map)
  have "file_ok \<lparr>repo = r, node = n\<lparr>Size := sum_list (sizes f)\<rparr>, ownerIsRoot = owner,
              sizes = sizes f, blobs = replicate (length (Content n)) None\<rparr> chunks"
    using l by (simp add: file_ok_def)
  with f show ?thesis by simp
qed

lemma Release_file_ok:
  "file_ok f chunks \<Longrightarrow> file_ok (fst (snd (Release f pool))) chunks"
  by (simp add: Release_def Release_loop_eq file_ok_def)

lemma ex_file_ok: "file_ok ex_file ex_chunks"
  using newFile_ex by (rule newFile_file_ok)



lemma fail_file_ok: "file_ok fail_file ex_chunks"
  using ex_file_ok by (simp add: file_ok_def fail_file_def)




text \<open>The read across the boundary of the two blobs of the example.\<close>

lemma Read_ex:
  "Read ex_file [\<lparr>arr = [0, 0, 0, 0], len = 4\<rparr>, \<lparr>arr = [0, 0], len = 0\<rparr>]
     \<lparr>req_Offset = 2, req_Size = 2\<rparr> \<lparr>Data = \<lparr>arr = [0, 0], len = 0\<rparr>\<rparr>
   = (None, \<lparr>Data = \<lparr>arr = [12, 20], len = 2\<rparr>\<rparr>,
      ex_file\<lparr>blobs := [Some \<lparr>arr = [10, 11, 12, 0], len = 3\<rparr>,
                          Some \<lparr>arr = [20, 21], len = 2\<rparr>]\<rparr>, [])"
  by (simp add: Read_def skip_blobs.simps read_loop.simps getBlobAt_def Let_def
      blobPool_Get_def blobPool_Put_def blobPool_New_def make_slice_def defaultBlobSize_def
      cap_def slice_from_def copy_at_def bytes_of_def
      ex_file_def ex_node_def ex_repo_def word_sless_alt)

subsection \<open>Read: the offset at the end of the file\<close>





end
